theory Spec2Isabelle
  imports Main
begin

section \<open>Strings and the accessor derivation (ToSnakeCase)\<close>

text \<open>
  A Go string is a sequence of bytes, here a \<open>string\<close> (a list of 8-bit characters).
  The two regular expressions of the program only name ASCII classes, and the dot of
  the first one stands for one character other than a line feed. A character of several
  bytes ends in a byte that is not a line feed, so reading the text byte by byte places
  the separators where reading it rune by rune does.
\<close>

definition isUpper :: "char \<Rightarrow> bool" where
  "isUpper c = (65 \<le> (of_char c :: nat) \<and> (of_char c :: nat) \<le> 90)"

definition isLower :: "char \<Rightarrow> bool" where
  "isLower c = (97 \<le> (of_char c :: nat) \<and> (of_char c :: nat) \<le> 122)"

definition isDigit :: "char \<Rightarrow> bool" where
  "isDigit c = (48 \<le> (of_char c :: nat) \<and> (of_char c :: nat) \<le> 57)"

definition isASCII :: "char \<Rightarrow> bool" where
  "isASCII c = ((of_char c :: nat) < 128)"

definition toLowerByte :: "char \<Rightarrow> char" where
  "toLowerByte c = (if isUpper c then char_of (of_char c + (32::nat)) else c)"

text \<open>
  \<open>strings.ToLower\<close> of the Go library: a text of ASCII bytes only is lowered byte by
  byte; any other text is handed to \<open>strings.Map(unicode.ToLower, s)\<close>, which needs the
  Unicode case tables. Those tables are not part of the program, so that branch is the
  parameter \<open>unicodeLower\<close>.
\<close>

definition ToLower :: "(string \<Rightarrow> string) \<Rightarrow> string \<Rightarrow> string" where
  "ToLower unicodeLower s =
     (if list_all isASCII s then map toLowerByte s else unicodeLower s)"

text \<open>
  \<open>matchFirstCap.ReplaceAllString(str, "${1}_${2}")\<close> for the expression
  \<open>(.)([A-Z][a-z]+)\<close>: the leftmost match starts at the first character \<open>c\<close> (not a
  line feed) that is followed by an upper case letter \<open>u\<close> and a lower case letter
  \<open>l\<close>; the match then takes every lower case letter that follows (the \<open>+\<close> is greedy),
  and the search goes on behind the match.
\<close>

function matchFirstCap :: "string \<Rightarrow> string" where
  "matchFirstCap (c # u # l # rest) =
     (if c \<noteq> CHR 0x0A \<and> isUpper u \<and> isLower l
      then c # CHR ''_'' # u # l # takeWhile isLower rest
             @ matchFirstCap (dropWhile isLower rest)
      else c # matchFirstCap (u # l # rest))"
| "matchFirstCap [c, u] = [c, u]"
| "matchFirstCap [c] = [c]"
| "matchFirstCap [] = []"
  by pat_completeness auto
termination
  by (relation "measure length") (auto simp: length_dropWhile_le less_Suc_eq_le le_SucI)

text \<open>
  \<open>matchAllCap.ReplaceAllString(snake, "${1}_${2}")\<close> for the expression
  \<open>([a-z0-9])([A-Z])\<close>: a match is two characters long and the search goes on behind it.
\<close>

fun matchAllCap :: "string \<Rightarrow> string" where
  "matchAllCap (c # u # rest) =
     (if (isLower c \<or> isDigit c) \<and> isUpper u
      then c # CHR ''_'' # u # matchAllCap rest
      else c # matchAllCap (u # rest))"
| "matchAllCap [c] = [c]"
| "matchAllCap [] = []"

definition ToSnakeCase :: "(string \<Rightarrow> string) \<Rightarrow> string \<Rightarrow> string" where
  "ToSnakeCase unicodeLower str =
     (let snake = matchFirstCap str;
          snake = matchAllCap snake
      in ToLower unicodeLower snake)"

text \<open>
  Where a text is known to be ASCII the Unicode branch is never taken; \<open>asciiLower\<close> is
  the byte-wise lowering, used to run the transform on concrete ASCII names.
\<close>

definition asciiLower :: "string \<Rightarrow> string" where
  "asciiLower s = map toLowerByte s"

section \<open>Struct tags (github.com/fatih/structtag)\<close>

text \<open>
  One entry \<open>key:"name,opt1,opt2"\<close> of a struct tag. The tag text of a field is
  represented by the list of entries that \<open>structtag.Parse\<close> reads from it, in order;
  \<open>Parse\<close> and \<open>String\<close> are inverse to each other on well-formed tag text, and tag text
  that does not parse is outside this model.
\<close>

record Tag =
  Key :: string
  Name :: string
  Options :: "string list"

type_synonym Tags = "Tag list"

text \<open>\<open>Tags.Get\<close>: the first entry with the key, \<open>None\<close> for \<open>errTagNotExist\<close>.\<close>

fun Get :: "Tags \<Rightarrow> string \<Rightarrow> Tag option" where
  "Get [] key = None"
| "Get (t # ts) key = (if Key t = key then Some t else Get ts key)"

definition HasOption :: "Tag \<Rightarrow> string \<Rightarrow> bool" where
  "HasOption t opt = List.member (Options t) opt"

text \<open>
  \<open>Tags.Set\<close>: an empty key is refused (\<open>errKeyNotSet\<close>, the tags stay as they are);
  otherwise every entry with the key is replaced, and the entry is appended when there
  was none.
\<close>

definition SetTag :: "Tags \<Rightarrow> Tag \<Rightarrow> Tags" where
  "SetTag ts tag =
     (if Key tag = [] then ts
      else if list_ex (\<lambda>tg. Key tg = Key tag) ts
           then map (\<lambda>tg. if Key tg = Key tag then tag else tg) ts
           else ts @ [tag])"

section \<open>Types (go/types)\<close>

datatype BasicKind =
    types_Invalid
  | types_Bool
  | types_Int | types_Int8 | types_Int16 | types_Int32 | types_Int64
  | types_Uint | types_Uint8 | types_Uint16 | types_Uint32 | types_Uint64
  | types_Uintptr
  | types_Float32 | types_Float64
  | types_Complex64 | types_Complex128
  | types_String
  | types_UnsafePointer
  | types_UntypedBool | types_UntypedInt | types_UntypedRune | types_UntypedFloat
  | types_UntypedComplex | types_UntypedString | types_UntypedNil

type_synonym Package = string

text \<open>
  The object of a named type: its package (\<open>None\<close> for a type of the universe scope)
  and its name.
\<close>

datatype TypeName = NewTypeName (ObjPkg: "Package option") (ObjName: string)

text \<open>
  A type as the program inspects it. A named type carries its underlying type, a struct
  its fields with their tags in declaration order. A field (\<open>types.Var\<close>) has a package,
  a name, a type and the embedded flag; \<open>Exported\<close> is what \<open>field.Exported()\<close> answers
  (it is decided by the first letter of the name, through the Unicode tables), and the
  source position is left out. The program only follows squash fields, by value, into
  structs, and reads every other type to a bounded depth, so a finite tree stands for
  the type graph.
\<close>

datatype Type =
    Basic BasicKind
  | Pointer Type
  | Slice Type
  | Map Type Type
  | Named TypeName Type
  | Struct "(Var \<times> Tags) list"
  | Signature
  | Array nat Type
  | Chan Type
  | Interface
and Var =
    Var (Pkg: Package) (VarName: string) (VarType: Type) (Embedded: bool) (Exported: bool)

type_synonym StructFields = "(Var \<times> Tags) list"

fun Underlying :: "Type \<Rightarrow> Type" where
  "Underlying (Named obj u) = u"
| "Underlying t = t"

text \<open>
  \<open>Type.String()\<close> of a named type: the package path, a dot and the name.
\<close>

definition NamedString :: "TypeName \<Rightarrow> string" where
  "NamedString obj =
     (case ObjPkg obj of None \<Rightarrow> ObjName obj | Some p \<Rightarrow> p @ ''.'' @ ObjName obj)"

text \<open>
  \<open>types.NewField(field.Pos(), pkg, field.Name(), typ, field.Embedded())\<close>: every field
  the program builds copies the position, the name and the embedded flag of the field it
  replaces.
\<close>

definition NewField :: "Var \<Rightarrow> Package \<Rightarrow> Type \<Rightarrow> Var" where
  "NewField field pkg typ = Var pkg (VarName field) typ (Embedded field) (Exported field)"

section \<open>Diagnostics\<close>

text \<open>The lines the program writes to its log, in the order it writes them.\<close>

datatype Diag =
    SkippingDuplicateField string
  | SkippingDuplicateTag string string string
  | UnhandledBasicKind BasicKind

section \<open>Flattening (getMapstructureSquashedStruct)\<close>

text \<open>
  \<open>uniqueFields\<close>: the loop over the fields with the map \<open>fieldNames\<close> of the names
  seen so far.
\<close>

fun uniqueFields_loop :: "string set \<Rightarrow> StructFields \<Rightarrow> StructFields \<times> Diag list" where
  "uniqueFields_loop fieldNames [] = ([], [])"
| "uniqueFields_loop fieldNames ((field, tag) # rest) =
     (if VarName field \<in> fieldNames
      then (let (out, log) = uniqueFields_loop fieldNames rest
            in (out, SkippingDuplicateField (VarName field) # log))
      else (let (out, log) = uniqueFields_loop (insert (VarName field) fieldNames) rest
            in ((field, tag) # out, log)))"

definition uniqueFields :: "StructFields \<Rightarrow> StructFields \<times> Diag list" where
  "uniqueFields vars = uniqueFields_loop {} vars"

definition addFieldToStruct :: "StructFields \<Rightarrow> Var \<Rightarrow> Tags \<Rightarrow> StructFields \<times> Diag list" where
  "addFieldToStruct s field tag = uniqueFields (s @ [(field, tag)])"

definition squashStructs :: "StructFields \<Rightarrow> StructFields \<Rightarrow> StructFields \<times> Diag list" where
  "squashStructs a b = uniqueFields (a @ b)"

definition flattenNamed :: "TypeName \<Rightarrow> Type \<Rightarrow> Type" where
  "flattenNamed obj underlying =
     Named (NewTypeName (ObjPkg obj) (''Flat'' @ ObjName obj)) underlying"

definition makePointer :: "Var \<Rightarrow> Var" where
  "makePointer field = NewField field (Pkg field) (Pointer (VarType field))"

text \<open>
  The part of the loop body that rewrites a field which is kept (source lines 426 to
  471): the package is set to the top package, one pointer is unwrapped, and the type
  switch follows.
\<close>

definition sliceOfFlat :: "Var \<Rightarrow> Type \<Rightarrow> Var" where
  "sliceOfFlat field el =
     (case el of
        Named obj u \<Rightarrow>
          (case u of
             Struct str \<Rightarrow> NewField field (Pkg field) (Slice (flattenNamed obj u))
           | _ \<Rightarrow> field)
      | _ \<Rightarrow> field)"

definition normalizeNamed :: "Var \<Rightarrow> TypeName \<Rightarrow> Type \<Rightarrow> Var" where
  "normalizeNamed field obj u =
     (let field =
            (if NamedString obj = ''time.Duration''
             then NewField field (Pkg field) (Pointer (Basic types_String))
             else if NamedString obj = ''github.com/hashicorp/packer/helper/config.Trilean''
             then NewField field (Pkg field) (Pointer (Basic types_Bool))
             else if NamedString obj
                       = ''github.com/hashicorp/packer/provisioner/powershell.ExecutionPolicy''
             then NewField field (Pkg field) (Pointer (Basic types_String))
             else field);
          field =
            (case u of
               Struct str \<Rightarrow> makePointer (NewField field (Pkg field) (flattenNamed obj u))
             | _ \<Rightarrow> field);
          field =
            (case u of
               Slice el \<Rightarrow> sliceOfFlat field el
             | _ \<Rightarrow> field)
      in field)"

definition normalizeField :: "Package \<Rightarrow> Var \<Rightarrow> Var" where
  "normalizeField topPkg field =
     (let field = (if Pkg field \<noteq> topPkg then NewField field topPkg (VarType field) else field);
          field = (case VarType field of
                     Pointer e \<Rightarrow> NewField field (Pkg field) e
                   | _ \<Rightarrow> field)
      in case VarType field of
           Named obj u \<Rightarrow> normalizeNamed field obj u
         | Slice el \<Rightarrow> sliceOfFlat field el
         | Basic k \<Rightarrow> makePointer field
         | _ \<Rightarrow> field)"

text \<open>
  Whether the loop takes the squash branch for a tag: the tag has a \<open>mapstructure\<close>
  entry and that entry has the option \<open>squash\<close>.
\<close>

definition isSquash :: "Tags \<Rightarrow> bool" where
  "isSquash tag =
     (case Get tag ''mapstructure'' of None \<Rightarrow> False | Some ms \<Rightarrow> HasOption ms ''squash'')"

text \<open>Sizes, for the termination of the recursive functions below.\<close>

lemma size_Struct_fields: "size_list (\<lambda>(v, t). size v) fs < size (Struct fs)"
  by (induction fs) (auto simp: less_Suc_eq_le)

lemma size_Underlying: "size (Underlying t) \<le> size t"
  by (cases t) auto

lemma size_VarType: "size (VarType v) < size v"
  by (cases v) auto

text \<open>
  The loop of \<open>getMapstructureSquashedStruct\<close> over the fields that are left, with the
  struct \<open>res\<close> built so far and the log. A squash field whose underlying type is a
  struct runs the function on that struct and merges the result into \<open>res\<close>.
\<close>

function squashLoop :: "Package \<Rightarrow> StructFields \<Rightarrow> StructFields \<times> Diag list
                          \<Rightarrow> StructFields \<times> Diag list" where
  "squashLoop topPkg [] acc = acc"
| "squashLoop topPkg ((field, tag) # rest) (res, log) =
     (if \<not> Exported field then squashLoop topPkg rest (res, log)
      else if VarType field = Signature then squashLoop topPkg rest (res, log)
      else if isSquash tag then
        (case Underlying (VarType field) of
           Struct utStruct \<Rightarrow>
             (let (sub, log1) = squashLoop topPkg utStruct ([], []);
                  (res, log2) = squashStructs res sub
              in squashLoop topPkg rest (res, log @ log1 @ log2))
         | _ \<Rightarrow> squashLoop topPkg rest (res, log))
      else
        (let (res, log1) = addFieldToStruct res (normalizeField topPkg field) tag
         in squashLoop topPkg rest (res, log @ log1)))"
  by pat_completeness auto
termination
proof (relation "measure (\<lambda>(topPkg, flds, acc). size_list (\<lambda>(v, t). size v) flds)")
  fix topPkg :: Package and field tag and rest :: StructFields and res :: StructFields
    and log :: "Diag list" and x6
  assume "Underlying (VarType field) = Struct x6"
  then have "size (Struct x6) < size field"
    using size_Underlying [of "VarType field"] size_VarType [of field] by simp
  then show "((topPkg, x6, [], []), topPkg, (field, tag) # rest, res, log)
       \<in> measure (\<lambda>(topPkg, flds, acc). size_list (\<lambda>(v, t). size v) flds)"
    using size_Struct_fields [of x6] by simp
qed auto

definition getMapstructureSquashedStruct :: "Package \<Rightarrow> StructFields
                                                \<Rightarrow> StructFields \<times> Diag list" where
  "getMapstructureSquashedStruct topPkg utStruct = squashLoop topPkg utStruct ([], [])"

section \<open>Accessors (addCtyTagToStruct, uniqueTags)\<close>

fun uniqueTags_loop :: "string \<Rightarrow> string set \<Rightarrow> StructFields
                          \<Rightarrow> StructFields \<times> Diag list" where
  "uniqueTags_loop tagName seen [] = ([], [])"
| "uniqueTags_loop tagName seen ((field, tag) # rest) =
     (case Get tag tagName of
        Some h \<Rightarrow>
          (if Name h \<in> seen
           then (let (out, log) = uniqueTags_loop tagName seen rest
                 in (out, SkippingDuplicateTag (VarName field) (Name h) tagName # log))
           else (let (out, log) = uniqueTags_loop tagName (insert (Name h) seen) rest
                 in ((field, tag) # out, log)))
      | None \<Rightarrow>
          (let (out, log) = uniqueTags_loop tagName seen rest
           in ((field, tag) # out, log)))"

definition uniqueTags :: "string \<Rightarrow> StructFields \<Rightarrow> StructFields \<times> Diag list" where
  "uniqueTags tagName vars = uniqueTags_loop tagName {} vars"

text \<open>
  The body of the loop of \<open>addCtyTagToStruct\<close> for one field: the accessor is the snake
  case of the field name unless the \<open>mapstructure\<close> entry has a name, and it is stored
  under the key \<open>cty\<close>.
\<close>

definition ctyAccessor :: "(string \<Rightarrow> string) \<Rightarrow> Var \<Rightarrow> Tags \<Rightarrow> string" where
  "ctyAccessor unicodeLower field tag =
     (case Get tag ''mapstructure'' of
        Some ms \<Rightarrow> if Name ms \<noteq> [] then Name ms
                   else ToSnakeCase unicodeLower (VarName field)
      | None \<Rightarrow> ToSnakeCase unicodeLower (VarName field))"

definition addCtyTag :: "(string \<Rightarrow> string) \<Rightarrow> Var \<times> Tags \<Rightarrow> Var \<times> Tags" where
  "addCtyTag unicodeLower ft =
     (case ft of (field, tag) \<Rightarrow>
        (field, SetTag tag \<lparr>Key = ''cty'', Name = ctyAccessor unicodeLower field tag,
                            Options = []\<rparr>))"

definition addCtyTagToStruct :: "(string \<Rightarrow> string) \<Rightarrow> StructFields
                                   \<Rightarrow> StructFields \<times> Diag list" where
  "addCtyTagToStruct unicodeLower s = uniqueTags ''cty'' (map (addCtyTag unicodeLower) s)"

text \<open>
  The two steps \<open>main\<close> runs on every struct it was asked for (source lines 123 and
  124): flatten, then add the accessors.
\<close>

definition flatenedStruct :: "(string \<Rightarrow> string) \<Rightarrow> Package \<Rightarrow> StructFields
                                \<Rightarrow> StructFields \<times> Diag list" where
  "flatenedStruct unicodeLower topPkg utStruct =
     (let (s, log1) = getMapstructureSquashedStruct topPkg utStruct;
          (s, log2) = addCtyTagToStruct unicodeLower s
      in (s, log1 @ log2))"

section \<open>Lowering to decode specifications (outputHCL2SpecField)\<close>

datatype CtyType = cty_Bool | cty_String | cty_Number | cty_List CtyType

text \<open>
  The expression the program prints for a field. \<open>AttrSpec\<close> holds Name, Type and
  Required, \<open>BlockAttrsSpec\<close> holds TypeName, ElementType and Required, the block
  specifications hold TypeName and Nested. \<open>ObjectSpec T\<close> is the printed call
  \<open>hcldec.ObjectSpec(( *T)(nil).HCL2Spec())\<close> and \<open>SelfDefinedSpec T\<close> the printed call
  \<open>(&T{}).HCL2Spec()\<close>: both refer to the specification generated for the type \<open>T\<close> and
  do not expand it. \<open>CouldNotFindType\<close> is a specification followed by the comment
  \<open>TODO(azr): could not find type\<close>.
\<close>

datatype Spec =
    AttrSpec string CtyType bool
  | BlockAttrsSpec string CtyType bool
  | BlockListSpec string Spec
  | BlockSpec string Spec
  | BlockObjectSpec string Spec
  | ObjectSpec Type
  | SelfDefinedSpec Type
  | CouldNotFindType Spec

fun basicKindToCtyType :: "BasicKind \<Rightarrow> CtyType \<times> Diag list" where
  "basicKindToCtyType types_Bool = (cty_Bool, [])"
| "basicKindToCtyType types_String = (cty_String, [])"
| "basicKindToCtyType types_Int = (cty_Number, [])"
| "basicKindToCtyType types_Int8 = (cty_Number, [])"
| "basicKindToCtyType types_Int16 = (cty_Number, [])"
| "basicKindToCtyType types_Int32 = (cty_Number, [])"
| "basicKindToCtyType types_Int64 = (cty_Number, [])"
| "basicKindToCtyType types_Uint = (cty_Number, [])"
| "basicKindToCtyType types_Uint8 = (cty_Number, [])"
| "basicKindToCtyType types_Uint16 = (cty_Number, [])"
| "basicKindToCtyType types_Uint32 = (cty_Number, [])"
| "basicKindToCtyType types_Uint64 = (cty_Number, [])"
| "basicKindToCtyType types_Float32 = (cty_Number, [])"
| "basicKindToCtyType types_Float64 = (cty_Number, [])"
| "basicKindToCtyType types_Complex64 = (cty_Number, [])"
| "basicKindToCtyType types_Complex128 = (cty_Number, [])"
| "basicKindToCtyType types_Invalid = (cty_String, [])"
| "basicKindToCtyType kind = (cty_String, [UnhandledBasicKind kind])"


text \<open>
  The first test of \<open>outputHCL2SpecField\<close>: the tags have an entry with the empty key
  and that entry has the option \<open>self-defined\<close>.
\<close>

definition selfDefined :: "Tags \<Rightarrow> bool" where
  "selfDefined tag =
     (case Get tag [] of None \<Rightarrow> False | Some m2h \<Rightarrow> HasOption m2h ''self-defined'')"

text \<open>The element of a slice the switch looks at: one pointer is unwrapped.\<close>

fun sliceElem :: "Type \<Rightarrow> Type" where
  "sliceElem (Pointer e) = e"
| "sliceElem e = e"

lemma size_sliceElem: "sliceElem e = t \<Longrightarrow> size t \<le> size e"
  by (cases e) auto

function outputHCL2SpecField :: "string \<Rightarrow> Type \<Rightarrow> Tags \<Rightarrow> Spec \<times> Diag list" where
  "outputHCL2SpecField accessor fieldType tag =
     (if selfDefined tag then (SelfDefinedSpec fieldType, [])
      else
        (case fieldType of
           Pointer e \<Rightarrow> outputHCL2SpecField accessor e tag
         | Basic kind \<Rightarrow>
             (let (t, log) = basicKindToCtyType kind
              in (AttrSpec accessor t False, log))
         | Map k v \<Rightarrow> (BlockAttrsSpec accessor cty_String False, [])
         | Slice e \<Rightarrow>
             (case sliceElem e of
                Basic kind \<Rightarrow>
                  (let (t, log) = basicKindToCtyType kind
                   in (AttrSpec accessor (cty_List t) False, log))
              | Named obj u \<Rightarrow>
                  (let (b, log) = outputHCL2SpecField accessor (sliceElem e) tag
                   in (BlockListSpec accessor b, log))
              | Slice e' \<Rightarrow>
                  (let (b, log) = outputHCL2SpecField accessor (Underlying (sliceElem e)) tag
                   in (BlockListSpec accessor b, log))
              | _ \<Rightarrow> outputHCL2SpecField accessor (Underlying (sliceElem e)) tag)
         | Named obj underlyingType \<Rightarrow>
             (case underlyingType of
                Struct str \<Rightarrow> (BlockSpec accessor (ObjectSpec fieldType), [])
              | _ \<Rightarrow> outputHCL2SpecField (NamedString obj) underlyingType tag)
         | Struct str \<Rightarrow> (BlockObjectSpec accessor (ObjectSpec fieldType), [])
         | _ \<Rightarrow>
             (let (t, log) = basicKindToCtyType types_Bool
              in (CouldNotFindType (AttrSpec accessor t False), log))))"
  by pat_completeness auto
termination
proof (relation "measure (\<lambda>(accessor, fieldType, tag). size fieldType)")
  show "wf (measure (\<lambda>(accessor, fieldType, tag). size fieldType))"
    by simp
qed (auto dest!: size_sliceElem)

declare outputHCL2SpecField.simps [simp del]

text \<open>
  A nil pointer dereference: \<open>outputStructHCL2SpecBody\<close> reads the name of the \<open>cty\<close>
  entry without looking at the error of \<open>Get\<close>.
\<close>

datatype Panic = NilPointerDereference

text \<open>
  \<open>outputStructHCL2SpecBody\<close>: the entries of the printed map, one per field, keyed by
  the name of the field's \<open>cty\<close> entry.
\<close>

fun outputStructHCL2SpecBody :: "StructFields
                                   \<Rightarrow> Panic + ((string \<times> Spec) list \<times> Diag list)" where
  "outputStructHCL2SpecBody [] = Inr ([], [])"
| "outputStructHCL2SpecBody ((field, tag) # rest) =
     (case Get tag ''cty'' of
        None \<Rightarrow> Inl NilPointerDereference
      | Some ctyTag \<Rightarrow>
          (let (sp, log1) = outputHCL2SpecField (Name ctyTag) (VarType field) tag
           in case outputStructHCL2SpecBody rest of
                Inl e \<Rightarrow> Inl e
              | Inr (entries, log2) \<Rightarrow> Inr ((Name ctyTag, sp) # entries, log1 @ log2)))"

section \<open>The generated methods (main)\<close>







section \<open>Predicates of the statements and the scenarios\<close>

text \<open>
  \<open>requiredFalse\<close>: every \<open>AttrSpec\<close> and \<open>BlockAttrsSpec\<close> of a printed specification,
  nested ones included, has \<open>Required: false\<close>.
\<close>

fun requiredFalse :: "Spec \<Rightarrow> bool" where
  "requiredFalse (AttrSpec name t required) = (required = False)"
| "requiredFalse (BlockAttrsSpec name t required) = (required = False)"
| "requiredFalse (BlockListSpec name nested) = requiredFalse nested"
| "requiredFalse (BlockSpec name nested) = requiredFalse nested"
| "requiredFalse (BlockObjectSpec name nested) = requiredFalse nested"
| "requiredFalse (ObjectSpec t) = True"
| "requiredFalse (SelfDefinedSpec t) = True"
| "requiredFalse (CouldNotFindType sp) = requiredFalse sp"

text \<open>Scenario E: a struct with the field \<open>Env map[string]int\<close>.\<close>

definition envField :: "Var \<times> Tags" where
  "envField = (Var ''main'' ''Env'' (Map (Basic types_String) (Basic types_Int)) False True, [])"





text \<open>
  \<open>isStruct\<close>: the type assertion \<open>uot.(*types.Struct)\<close> succeeds. \<open>fieldNames\<close> are
  the names of the fields of a struct in order; \<open>tagNames\<close> are the names of the
  entries with a given key, for the fields that have one, in order.
\<close>

fun isStruct :: "Type \<Rightarrow> bool" where
  "isStruct (Struct str) = True"
| "isStruct t = False"

definition fieldNames :: "StructFields \<Rightarrow> string list" where
  "fieldNames vars = map (\<lambda>ft. VarName (fst ft)) vars"

definition tagNames :: "string \<Rightarrow> StructFields \<Rightarrow> string list" where
  "tagNames tagName vars =
     List.map_filter (\<lambda>ft. map_option Name (Get (snd ft) tagName)) vars"

text \<open>
  Scenario A: a struct with the fields \<open>Name string\<close>, \<open>Count int\<close> and the embedded
  struct \<open>Common\<close> tagged \<open>mapstructure:",squash"\<close>, where \<open>Common\<close> has the field
  \<open>Debug bool\<close>; \<open>flatScenarioA\<close> is the flat struct expected for it.
\<close>

definition squashTag :: Tags where
  "squashTag = [\<lparr>Key = ''mapstructure'', Name = [], Options = [''squash'']\<rparr>]"

definition commonStruct :: StructFields where
  "commonStruct = [(Var ''main'' ''Debug'' (Basic types_Bool) False True, [])]"

definition commonField :: Var where
  "commonField =
     Var ''main'' ''Common'' (Named (NewTypeName (Some ''main'') ''Common'') (Struct commonStruct))
       True True"

definition nameField :: Var where
  "nameField = Var ''main'' ''Name'' (Basic types_String) False True"

definition countField :: Var where
  "countField = Var ''main'' ''Count'' (Basic types_Int) False True"

definition scenarioA :: StructFields where
  "scenarioA = [(nameField, []), (countField, [])] @ (commonField, squashTag) # []"

definition flatScenarioA :: StructFields where
  "flatScenarioA =
     [(Var ''main'' ''Name'' (Pointer (Basic types_String)) False True, []),
      (Var ''main'' ''Count'' (Pointer (Basic types_Int)) False True, []),
      (Var ''main'' ''Debug'' (Pointer (Basic types_Bool)) False True, [])]"

text \<open>A squash tag on a field of type string.\<close>

definition extraField :: Var where
  "extraField = Var ''main'' ''Extra'' (Basic types_String) False True"

text \<open>Scenario C: the field \<open>Command string\<close> tagged \<open>mapstructure:"cmd"\<close>.\<close>

definition commandField :: "Var \<times> Tags" where
  "commandField = (Var ''main'' ''Command'' (Basic types_String) False True,
                   [\<lparr>Key = ''mapstructure'', Name = ''cmd'', Options = []\<rparr>])"

section \<open>Properties of the accessor derivation\<close>

lemma of_char_toLowerByte:
  "isUpper c \<Longrightarrow> (of_char (toLowerByte c) :: nat) = of_char c + 32"
  by (simp add: toLowerByte_def isUpper_def)

lemma toLowerByte_not_upper: "\<not> isUpper (toLowerByte c)"
proof (cases "isUpper c")
  case True
  then show ?thesis using of_char_toLowerByte [OF True]
    by (simp add: isUpper_def)
next
  case False
  then show ?thesis by (simp add: toLowerByte_def)
qed

lemma toLowerByte_id: "\<not> isUpper c \<Longrightarrow> toLowerByte c = c"
  by (simp add: toLowerByte_def)

lemma toLowerByte_ascii: "isASCII c \<Longrightarrow> isASCII (toLowerByte c)"
proof (cases "isUpper c")
  case True
  then show ?thesis using of_char_toLowerByte [OF True]
    by (simp add: isUpper_def isASCII_def)
next
  case False
  then show "isASCII c \<Longrightarrow> ?thesis" by (simp add: toLowerByte_def)
qed

text \<open>Neither expression matches in a text without an upper case letter.\<close>

lemma matchFirstCap_noUpper:
  "list_all (\<lambda>c. \<not> isUpper c) s \<Longrightarrow> matchFirstCap s = s"
  by (induction s rule: matchFirstCap.induct) auto

lemma matchAllCap_noUpper:
  "list_all (\<lambda>c. \<not> isUpper c) s \<Longrightarrow> matchAllCap s = s"
  by (induction s rule: matchAllCap.induct) auto

lemma ToLower_noUpper:
  assumes "\<And>s. \<not> list_all isASCII s \<Longrightarrow> list_all (\<lambda>c. \<not> isUpper c) (unicodeLower s)"
  shows "list_all (\<lambda>c. \<not> isUpper c) (ToLower unicodeLower s)"
  using assms by (simp add: ToLower_def list_all_iff toLowerByte_not_upper)

lemma ToLower_stable:
  assumes "list_all (\<lambda>c. \<not> isUpper c) t"
    and "\<not> list_all isASCII t \<Longrightarrow> unicodeLower t = t"
  shows "ToLower unicodeLower t = t"
  using assms by (auto simp: ToLower_def list_all_iff toLowerByte_id intro: map_idI)

lemma asciiLower_noUpper: "list_all (\<lambda>c. \<not> isUpper c) (asciiLower s)"
  by (simp add: asciiLower_def list_all_iff toLowerByte_not_upper)

lemma asciiLower_idem: "asciiLower (asciiLower s) = asciiLower s"
  by (simp add: asciiLower_def toLowerByte_id toLowerByte_not_upper)

text \<open>
  Claim C8. The accessor derivation is idempotent: for every string \<open>s\<close>, applying
  \<open>ToSnakeCase\<close> to its own output returns that output unchanged. The two hypotheses
  are what the proof needs of the library's Unicode lowering, which is only called on
  a text with a byte outside ASCII: its result has no letter \<open>A\<close> to \<open>Z\<close>, and lowering
  its result again changes nothing.
\<close>

theorem ToSnakeCase_idempotent:
  assumes noUpper: "\<And>s. \<not> list_all isASCII s
                      \<Longrightarrow> list_all (\<lambda>c. \<not> isUpper c) (unicodeLower s)"
    and idem: "\<And>s. \<not> list_all isASCII s \<Longrightarrow> \<not> list_all isASCII (unicodeLower s)
                      \<Longrightarrow> unicodeLower (unicodeLower s) = unicodeLower s"
  shows "ToSnakeCase unicodeLower (ToSnakeCase unicodeLower s) = ToSnakeCase unicodeLower s"
proof -
  define x where "x = matchAllCap (matchFirstCap s)"
  define t where "t = ToLower unicodeLower x"
  have t: "ToSnakeCase unicodeLower s = t"
    by (simp add: ToSnakeCase_def x_def t_def)
  have low: "list_all (\<lambda>c. \<not> isUpper c) t"
    unfolding t_def by (rule ToLower_noUpper) (rule noUpper)
  have pass: "matchAllCap (matchFirstCap t) = t"
    using low by (simp add: matchFirstCap_noUpper matchAllCap_noUpper)
  have "\<not> list_all isASCII t \<Longrightarrow> unicodeLower t = t"
  proof -
    assume na: "\<not> list_all isASCII t"
    have nx: "\<not> list_all isASCII x"
    proof
      assume ax: "list_all isASCII x"
      then have "t = map toLowerByte x" by (simp add: t_def ToLower_def)
      with ax have "list_all isASCII t" by (simp add: list_all_iff toLowerByte_ascii)
      with na show False by simp
    qed
    then have tu: "t = unicodeLower x" by (simp add: t_def ToLower_def)
    with na idem [OF nx] show "unicodeLower t = t" by simp
  qed
  with low have "ToLower unicodeLower t = t" by (rule ToLower_stable)
  with pass have "ToSnakeCase unicodeLower t = t" by (simp add: ToSnakeCase_def)
  then show ?thesis unfolding t .
qed

text \<open>
  The theorem at the name made of the two bytes of an accented capital E followed by
  \<open>AbC\<close>, with the byte-wise lowering in the place of the Unicode one: the name is not
  ASCII, its accessor has two separators, and deriving again returns the accessor.
\<close>

theorem ToSnakeCase_idempotent_witness:
  "ToSnakeCase asciiLower
       (ToSnakeCase asciiLower [CHR 0xC3, CHR 0x89, CHR ''A'', CHR ''b'', CHR ''C''])
     = ToSnakeCase asciiLower [CHR 0xC3, CHR 0x89, CHR ''A'', CHR ''b'', CHR ''C'']
   \<and> ToSnakeCase asciiLower [CHR 0xC3, CHR 0x89, CHR ''A'', CHR ''b'', CHR ''C'']
     = [CHR 0xC3, CHR 0x89, CHR ''_'', CHR ''a'', CHR ''b'', CHR ''_'', CHR ''c'']
   \<and> \<not> list_all isASCII [CHR 0xC3, CHR 0x89, CHR ''A'', CHR ''b'', CHR ''C'']"
proof (intro conjI)
  show "ToSnakeCase asciiLower
       (ToSnakeCase asciiLower [CHR 0xC3, CHR 0x89, CHR ''A'', CHR ''b'', CHR ''C''])
     = ToSnakeCase asciiLower [CHR 0xC3, CHR 0x89, CHR ''A'', CHR ''b'', CHR ''C'']"
    by (rule ToSnakeCase_idempotent) (simp_all add: asciiLower_noUpper asciiLower_idem)
  show "ToSnakeCase asciiLower [CHR 0xC3, CHR 0x89, CHR ''A'', CHR ''b'', CHR ''C'']
     = [CHR 0xC3, CHR 0x89, CHR ''_'', CHR ''a'', CHR ''b'', CHR ''_'', CHR ''c'']"
    by code_simp
  show "\<not> list_all isASCII [CHR 0xC3, CHR 0x89, CHR ''A'', CHR ''b'', CHR ''C'']"
    by code_simp
qed

text \<open>The character classes of the two expressions.\<close>

lemma isUpper_classes:
  "isUpper c \<Longrightarrow> \<not> isLower c \<and> \<not> isDigit c \<and> isASCII c \<and> c \<noteq> CHR 0x0A"
  by (auto simp: isUpper_def isLower_def isDigit_def isASCII_def)

lemma isLower_classes: "isLower c \<Longrightarrow> \<not> isUpper c \<and> isASCII c"
  by (auto simp: isUpper_def isLower_def isASCII_def)

lemma underscore_classes:
  "\<not> isUpper CHR ''_'' \<and> \<not> isLower CHR ''_'' \<and> \<not> isDigit CHR ''_'' \<and> isASCII CHR ''_''"
  by (simp add: isUpper_def isLower_def isDigit_def isASCII_def)

lemma takeWhile_all: "list_all P xs \<Longrightarrow> takeWhile P xs = xs"
  by (induction xs) auto

lemma dropWhile_all: "list_all P xs \<Longrightarrow> dropWhile P xs = []"
  by (induction xs) auto

lemma matchFirstCap_acronym:
  assumes "acr \<noteq> []" and "list_all isUpper acr" and "isUpper u" and "isLower l"
    and "list_all isLower w"
  shows "matchFirstCap (acr @ u # l # w) = acr @ CHR ''_'' # u # l # w"
  using assms
proof (induction acr rule: list_nonempty_induct)
  case (single c)
  then show ?case
    using isUpper_classes [of c] by (simp add: takeWhile_all dropWhile_all)
next
  case (cons c acr)
  obtain c' acr' where acr: "acr = c' # acr'" using cons.hyps by (cases acr) auto
  obtain x r where x: "acr' @ u # l # w = x # r" and ux: "isUpper x"
    using cons.prems by (cases acr') (auto simp: acr)
  have "matchFirstCap (c # c' # x # r) = c # matchFirstCap (c' # x # r)"
    using isUpper_classes [OF ux] by simp
  then have "matchFirstCap ((c # acr) @ u # l # w) = c # matchFirstCap (acr @ u # l # w)"
    by (simp add: acr x)
  then show ?case using cons by simp
qed

lemma matchAllCap_upper_prefix:
  "list_all isUpper acr \<Longrightarrow> matchAllCap (acr @ t) = acr @ matchAllCap t"
proof (induction acr)
  case Nil
  then show ?case by simp
next
  case (Cons c acr)
  then have c: "\<not> isLower c" "\<not> isDigit c" using isUpper_classes [of c] by simp_all
  show ?case
  proof (cases "acr @ t")
    case Nil
    then show ?thesis by simp
  next
    case (Cons x r)
    have "matchAllCap ((c # acr) @ t) = c # matchAllCap (acr @ t)"
      using c by (simp add: Cons)
    then show ?thesis using Cons.IH Cons.prems by simp
  qed
qed

lemma matchAllCap_noUpper_tail:
  "list_all (\<lambda>c. \<not> isUpper c) (tl s) \<Longrightarrow> matchAllCap s = s"
  by (induction s rule: matchAllCap.induct) auto

text \<open>
  Claim C4, as the program has it. For every name made of an acronym (one or more
  capitals) immediately followed by one capitalized word (a capital and one or more
  lower case letters): the first pass puts one separator in front of the capitalized
  word and none between the capitals of the acronym, the second pass finds nothing to
  separate, and the accessor is the acronym in lower case, one separator and the word
  in lower case.
\<close>

theorem ToSnakeCase_acronym_word:
  assumes "acr \<noteq> []" and "list_all isUpper acr" and "isUpper u"
    and "w \<noteq> []" and "list_all isLower w"
  shows "matchFirstCap (acr @ u # w) = acr @ CHR ''_'' # u # w
       \<and> matchAllCap (acr @ CHR ''_'' # u # w) = acr @ CHR ''_'' # u # w
       \<and> ToSnakeCase unicodeLower (acr @ u # w)
           = map toLowerByte acr @ CHR ''_'' # toLowerByte u # w"
proof -
  obtain l w' where w: "w = l # w'" using assms(4) by (cases w) auto
  with assms(5) have l: "isLower l" and w': "list_all isLower w'" by simp_all
  have p1: "matchFirstCap (acr @ u # w) = acr @ CHR ''_'' # u # w"
    unfolding w by (rule matchFirstCap_acronym [OF assms(1-3) l w'])
  have nu: "list_all (\<lambda>c. \<not> isUpper c) w"
    using assms(5) isLower_classes by (simp add: list_all_iff)
  have "matchAllCap (u # w) = u # w"
    by (rule matchAllCap_noUpper_tail) (simp add: nu)
  then have "matchAllCap (CHR ''_'' # u # w) = CHR ''_'' # u # w"
    using underscore_classes by simp
  then have p2: "matchAllCap (acr @ CHR ''_'' # u # w) = acr @ CHR ''_'' # u # w"
    using matchAllCap_upper_prefix [OF assms(2)] by simp
  have ascii: "list_all isASCII (acr @ CHR ''_'' # u # w)"
    using assms(2,3,5) isUpper_classes isLower_classes underscore_classes
    by (auto simp: list_all_iff)
  have "map toLowerByte w = w"
    using nu by (simp add: list_all_iff toLowerByte_id map_idI)
  then have low: "map toLowerByte (acr @ CHR ''_'' # u # w)
                    = map toLowerByte acr @ CHR ''_'' # toLowerByte u # w"
    using underscore_classes by (simp add: toLowerByte_id)
  have "ToSnakeCase unicodeLower (acr @ u # w)
          = ToLower unicodeLower (acr @ CHR ''_'' # u # w)"
    by (simp add: ToSnakeCase_def p1 p2)
  also have "\<dots> = map toLowerByte acr @ CHR ''_'' # toLowerByte u # w"
    using ascii low by (simp add: ToLower_def)
  finally show ?thesis using p1 p2 by simp
qed

text \<open>
  The theorem at the name \<open>ABCDWord\<close>: the first pass gives \<open>ABCD_Word\<close>, the second
  pass leaves it, and the accessor is \<open>abcd_word\<close>.
\<close>

theorem ToSnakeCase_acronym_word_witness:
  "''ABCD'' \<noteq> [] \<and> list_all isUpper ''ABCD'' \<and> isUpper CHR ''W''
   \<and> ''ord'' \<noteq> [] \<and> list_all isLower ''ord''
   \<and> matchFirstCap ''ABCDWord'' = ''ABCD_Word''
   \<and> matchAllCap ''ABCD_Word'' = ''ABCD_Word''
   \<and> ToSnakeCase asciiLower ''ABCDWord'' = ''abcd_word''"
proof -
  have 1: "''ABCD'' \<noteq> []" by simp
  have 2: "list_all isUpper ''ABCD''" by code_simp
  have 3: "isUpper CHR ''W''" by code_simp
  have 4: "''ord'' \<noteq> []" by simp
  have 5: "list_all isLower ''ord''" by code_simp
  have 6: "map toLowerByte ''ABCD'' @ CHR ''_'' # toLowerByte CHR ''W'' # ''ord'' = ''abcd_word''"
    by code_simp
  show ?thesis
    using ToSnakeCase_acronym_word [OF 1 2 3 4 5, of asciiLower] 1 2 3 4 5 6
    by simp
qed

text \<open>
  The claim as the specification words it fails: the accessor of \<open>ABCDWord\<close> is not
  \<open>a_b_c_d_word\<close>, and neither is the accessor of \<open>ABCDword\<close>.
\<close>

theorem ToSnakeCase_acronym_word_counterexample:
  "ToSnakeCase asciiLower ''ABCDWord'' \<noteq> ''a_b_c_d_word''
   \<and> ToSnakeCase asciiLower ''ABCDword'' \<noteq> ''a_b_c_d_word''"
  by code_simp

section \<open>Properties of the deduplication\<close>

lemma fieldNames_simps [simp]:
  "fieldNames [] = []"
  "fieldNames ((field, tag) # rest) = VarName field # fieldNames rest"
  "fieldNames (a @ b) = fieldNames a @ fieldNames b"
  by (simp_all add: fieldNames_def)

text \<open>The two components of the result of \<open>uniqueFields_loop\<close>, field by field.\<close>

lemma fst_uniqueFields_loop [simp]:
  "fst (uniqueFields_loop seen []) = []"
  "fst (uniqueFields_loop seen ((field, tag) # rest)) =
     (if VarName field \<in> seen then fst (uniqueFields_loop seen rest)
      else (field, tag) # fst (uniqueFields_loop (insert (VarName field) seen) rest))"
  by (simp_all add: split_def Let_def)

lemma snd_uniqueFields_loop [simp]:
  "snd (uniqueFields_loop seen []) = []"
  "snd (uniqueFields_loop seen ((field, tag) # rest)) =
     (if VarName field \<in> seen
      then SkippingDuplicateField (VarName field) # snd (uniqueFields_loop seen rest)
      else snd (uniqueFields_loop (insert (VarName field) seen) rest))"
  by (simp_all add: split_def Let_def)

lemma fst_uniqueFields_loop_append:
  "fst (uniqueFields_loop seen (a @ b)) =
     fst (uniqueFields_loop seen a) @ fst (uniqueFields_loop (seen \<union> set (fieldNames a)) b)"
proof (induction a arbitrary: seen)
  case Nil
  then show ?case by simp
next
  case (Cons x a)
  obtain field tag where x: "x = (field, tag)" by (cases x)
  show ?case
    by (simp add: x Cons.IH insert_absorb del: uniqueFields_loop.simps)
qed

lemma uniqueFields_loop_names:
  "set (fieldNames (fst (uniqueFields_loop seen a))) = set (fieldNames a) - seen"
proof (induction a arbitrary: seen)
  case Nil
  then show ?case by simp
next
  case (Cons x a)
  obtain field tag where x: "x = (field, tag)" by (cases x)
  show ?case
    by (auto simp: x Cons.IH simp del: uniqueFields_loop.simps)
qed

lemma uniqueFields_loop_distinct:
  "distinct (fieldNames (fst (uniqueFields_loop seen a)))"
proof (induction a arbitrary: seen)
  case Nil
  then show ?case by simp
next
  case (Cons x a)
  obtain field tag where x: "x = (field, tag)" by (cases x)
  show ?case
    by (simp add: x Cons.IH uniqueFields_loop_names del: uniqueFields_loop.simps)
qed


lemma uniqueFields_loop_absorb:
  "fst (uniqueFields_loop seen (fst (uniqueFields_loop seen' a)))
     = fst (uniqueFields_loop (seen \<union> seen') a)"
proof (induction a arbitrary: seen seen')
  case Nil
  then show ?case by simp
next
  case (Cons x a)
  obtain field tag where x: "x = (field, tag)" by (cases x)
  have a: "VarName field \<in> seen \<Longrightarrow> seen \<union> insert (VarName field) seen' = seen \<union> seen'"
    by auto
  have b: "insert (VarName field) seen \<union> insert (VarName field) seen'
             = insert (VarName field) (seen \<union> seen')" by auto
  show ?case
    using Cons.IH [of seen seen'] Cons.IH [of seen "insert (VarName field) seen'"]
      Cons.IH [of "insert (VarName field) seen" "insert (VarName field) seen'"]
    by (simp add: x a b insert_absorb del: uniqueFields_loop.simps)
qed

lemma uniqueFields_loop_id:
  "distinct (fieldNames a) \<Longrightarrow> set (fieldNames a) \<inter> seen = {}
     \<Longrightarrow> uniqueFields_loop seen a = (a, [])"
proof (induction a arbitrary: seen)
  case Nil
  then show ?case by simp
next
  case (Cons x a)
  obtain field tag where x: "x = (field, tag)" by (cases x)
  from Cons.prems have "uniqueFields_loop (insert (VarName field) seen) a = (a, [])"
    by (intro Cons.IH) (auto simp: x)
  with Cons.prems show ?case by (simp add: x)
qed


lemma uniqueFields_distinct: "distinct (fieldNames (fst (uniqueFields a)))"
  by (simp add: uniqueFields_def uniqueFields_loop_distinct)

lemma uniqueFields_id: "distinct (fieldNames a) \<Longrightarrow> uniqueFields a = (a, [])"
  by (simp add: uniqueFields_def uniqueFields_loop_id)

lemma uniqueFields_left:
  "fst (uniqueFields (fst (uniqueFields a) @ b)) = fst (uniqueFields (a @ b))"
proof -
  have "set (fieldNames (fst (uniqueFields_loop {} a))) = set (fieldNames a)"
    by (simp add: uniqueFields_loop_names)
  then show ?thesis
    using uniqueFields_loop_absorb [of "{}" "{}" a]
    by (simp add: uniqueFields_def fst_uniqueFields_loop_append)
qed

lemma uniqueFields_right:
  "fst (uniqueFields (a @ fst (uniqueFields b))) = fst (uniqueFields (a @ b))"
  using uniqueFields_loop_absorb [of "set (fieldNames a)" "{}" b]
  by (simp add: uniqueFields_def fst_uniqueFields_loop_append)


lemma tagNames_simps [simp]:
  "tagNames tagName [] = []"
  "tagNames tagName ((field, tag) # rest) =
     (case Get tag tagName of None \<Rightarrow> tagNames tagName rest
      | Some h \<Rightarrow> Name h # tagNames tagName rest)"
  by (simp_all add: tagNames_def split: option.splits)

lemma fst_uniqueTags_loop [simp]:
  "fst (uniqueTags_loop tagName seen []) = []"
  "fst (uniqueTags_loop tagName seen ((field, tag) # rest)) =
     (case Get tag tagName of
        Some h \<Rightarrow>
          (if Name h \<in> seen then fst (uniqueTags_loop tagName seen rest)
           else (field, tag) # fst (uniqueTags_loop tagName (insert (Name h) seen) rest))
      | None \<Rightarrow> (field, tag) # fst (uniqueTags_loop tagName seen rest))"
  by (simp_all add: split_def Let_def split: option.splits)

lemma snd_uniqueTags_loop [simp]:
  "snd (uniqueTags_loop tagName seen []) = []"
  "snd (uniqueTags_loop tagName seen ((field, tag) # rest)) =
     (case Get tag tagName of
        Some h \<Rightarrow>
          (if Name h \<in> seen
           then SkippingDuplicateTag (VarName field) (Name h) tagName
                  # snd (uniqueTags_loop tagName seen rest)
           else snd (uniqueTags_loop tagName (insert (Name h) seen) rest))
      | None \<Rightarrow> snd (uniqueTags_loop tagName seen rest))"
  by (simp_all add: split_def Let_def split: option.splits)

lemma uniqueTags_loop_fieldNames:
  "set (fieldNames (fst (uniqueTags_loop tagName seen vars))) \<subseteq> set (fieldNames vars)"
proof (induction vars arbitrary: seen)
  case Nil
  then show ?case by simp
next
  case (Cons x vars)
  obtain field tag where x: "x = (field, tag)" by (cases x)
  show ?case
    using Cons.IH
    by (auto simp: x simp del: uniqueTags_loop.simps split: option.splits)
qed

lemma uniqueTags_loop_distinct_fieldNames:
  "distinct (fieldNames vars)
     \<Longrightarrow> distinct (fieldNames (fst (uniqueTags_loop tagName seen vars)))"
proof (induction vars arbitrary: seen)
  case Nil
  then show ?case by simp
next
  case (Cons x vars)
  obtain field tag where x: "x = (field, tag)" by (cases x)
  show ?case
    using Cons.IH Cons.prems uniqueTags_loop_fieldNames [of tagName _ vars]
    by (auto simp: x simp del: uniqueTags_loop.simps split: option.splits)
qed

lemma uniqueTags_loop_tagNames:
  "set (tagNames tagName (fst (uniqueTags_loop tagName seen vars)))
     = set (tagNames tagName vars) - seen"
proof (induction vars arbitrary: seen)
  case Nil
  then show ?case by simp
next
  case (Cons x vars)
  obtain field tag where x: "x = (field, tag)" by (cases x)
  show ?case
    by (auto simp: x Cons.IH simp del: uniqueTags_loop.simps split: option.splits)
qed

lemma uniqueTags_loop_distinct_tagNames:
  "distinct (tagNames tagName (fst (uniqueTags_loop tagName seen vars)))"
proof (induction vars arbitrary: seen)
  case Nil
  then show ?case by simp
next
  case (Cons x vars)
  obtain field tag where x: "x = (field, tag)" by (cases x)
  show ?case
    by (auto simp: x Cons.IH uniqueTags_loop_tagNames simp del: uniqueTags_loop.simps
             split: option.splits)
qed

lemma tagNames_length:
  "list_all (\<lambda>ft. Get (snd ft) tagName \<noteq> None) vars
     \<Longrightarrow> length (tagNames tagName vars) = length vars"
  by (induction vars) (auto split: option.splits)

lemma uniqueFields_loop_find:
  "find (\<lambda>ft. VarName (fst ft) = n) (fst (uniqueFields_loop seen vars))
     = (if n \<in> seen then None else find (\<lambda>ft. VarName (fst ft) = n) vars)"
proof (induction vars arbitrary: seen)
  case Nil
  then show ?case by simp
next
  case (Cons x vars)
  obtain field tag where x: "x = (field, tag)" by (cases x)
  show ?case
    by (auto simp: x Cons.IH simp del: uniqueFields_loop.simps)
qed

lemma uniqueFields_loop_length:
  "length (fst (uniqueFields_loop seen vars)) + length (snd (uniqueFields_loop seen vars))
     = length vars"
proof (induction vars arbitrary: seen)
  case Nil
  then show ?case by simp
next
  case (Cons x vars)
  obtain field tag where x: "x = (field, tag)" by (cases x)
  show ?case
    using Cons.IH [of seen] Cons.IH [of "insert (VarName field) seen"]
    by (simp add: x del: uniqueFields_loop.simps)
qed

lemma uniqueFields_loop_count:
  "count_list (snd (uniqueFields_loop seen vars)) (SkippingDuplicateField n)
     = (if n \<in> seen then count_list (fieldNames vars) n
        else count_list (fieldNames vars) n - 1)"
proof (induction vars arbitrary: seen)
  case Nil
  then show ?case by simp
next
  case (Cons x vars)
  obtain field tag where x: "x = (field, tag)" by (cases x)
  show ?case
    by (auto simp: x Cons.IH simp del: uniqueFields_loop.simps)
qed

lemma uniqueTags_loop_find:
  "find (\<lambda>ft. map_option Name (Get (snd ft) tagName) = Some a)
        (fst (uniqueTags_loop tagName seen vars))
     = (if a \<in> seen then None
        else find (\<lambda>ft. map_option Name (Get (snd ft) tagName) = Some a) vars)"
proof (induction vars arbitrary: seen)
  case Nil
  then show ?case by simp
next
  case (Cons x vars)
  obtain field tag where x: "x = (field, tag)" by (cases x)
  show ?case
    using Cons.IH [of seen] Cons.IH [of "insert (Name (the (Get tag tagName))) seen"]
    by (auto simp: x simp del: uniqueTags_loop.simps split: option.splits)
qed

lemma uniqueTags_loop_length:
  "length (fst (uniqueTags_loop tagName seen vars))
     + length (snd (uniqueTags_loop tagName seen vars)) = length vars"
proof (induction vars arbitrary: seen)
  case Nil
  then show ?case by simp
next
  case (Cons x vars)
  obtain field tag where x: "x = (field, tag)" by (cases x)
  show ?case
    using Cons.IH [of seen] Cons.IH [of "insert (Name (the (Get tag tagName))) seen"]
    by (auto simp: x simp del: uniqueTags_loop.simps split: option.splits)
qed

section \<open>Properties of the flattening\<close>

text \<open>
  The three ways the loop treats a field: it is passed over, it is a squash field whose
  struct is flattened and merged, or it is rewritten and added.
\<close>

lemma squashLoop_skip:
  assumes "\<not> Exported field \<or> VarType field = Signature
             \<or> (isSquash tag \<and> \<not> isStruct (Underlying (VarType field)))"
  shows "squashLoop topPkg ((field, tag) # rest) acc = squashLoop topPkg rest acc"
proof -
  obtain res log where acc: "acc = (res, log)" by (cases acc)
  show ?thesis
    using assms unfolding acc
    by (cases "Underlying (VarType field)") auto
qed

lemma squashLoop_squash:
  assumes "Exported field" and "isSquash tag"
    and "Underlying (VarType field) = Struct children"
  shows "squashLoop topPkg ((field, tag) # rest) (res, log) =
           squashLoop topPkg rest
             (fst (squashStructs res (fst (getMapstructureSquashedStruct topPkg children))),
              log @ snd (getMapstructureSquashedStruct topPkg children)
                  @ snd (squashStructs res (fst (getMapstructureSquashedStruct topPkg children))))"
proof -
  from assms(3) have "VarType field \<noteq> Signature" by auto
  with assms show ?thesis
    by (simp add: getMapstructureSquashedStruct_def split_def Let_def)
qed

lemma squashLoop_keep:
  assumes "Exported field" and "VarType field \<noteq> Signature" and "\<not> isSquash tag"
  shows "squashLoop topPkg ((field, tag) # rest) (res, log) =
           squashLoop topPkg rest
             (fst (addFieldToStruct res (normalizeField topPkg field) tag),
              log @ snd (addFieldToStruct res (normalizeField topPkg field) tag))"
  using assms by (simp add: split_def Let_def)

lemma squashLoop_append:
  "squashLoop topPkg (a @ b) acc = squashLoop topPkg b (squashLoop topPkg a acc)"
proof (induction a arbitrary: acc)
  case Nil
  then show ?case by simp
next
  case (Cons x a)
  obtain field tag where x: "x = (field, tag)" by (cases x)
  obtain res log where acc: "acc = (res, log)" by (cases acc)
  consider (skip) "\<not> Exported field \<or> VarType field = Signature
             \<or> (isSquash tag \<and> \<not> isStruct (Underlying (VarType field)))"
    | (squash) children where "Exported field" "isSquash tag"
        "Underlying (VarType field) = Struct children"
    | (keep) "Exported field" "VarType field \<noteq> Signature" "\<not> isSquash tag"
    by (cases "Underlying (VarType field)") auto
  then show ?case
  proof cases
    case skip
    show ?thesis
      unfolding x append_Cons squashLoop_skip [OF skip] by (rule Cons.IH)
  next
    case squash
    show ?thesis
      unfolding x acc append_Cons squashLoop_squash [OF squash] by (rule Cons.IH)
  next
    case keep
    show ?thesis
      unfolding x acc append_Cons squashLoop_keep [OF keep] by (rule Cons.IH)
  qed
qed

lemma squashLoop_fields:
  "distinct (fieldNames res) \<Longrightarrow>
   fst (squashLoop topPkg s (res, log))
     = fst (uniqueFields (res @ fst (squashLoop topPkg s ([], []))))"
proof (induction s arbitrary: res log)
  case Nil
  then show ?case by (simp add: uniqueFields_id)
next
  case (Cons x s)
  obtain field tag where x: "x = (field, tag)" by (cases x)
  let ?G = "fst (squashLoop topPkg s ([], []))"
  consider (skip) "\<not> Exported field \<or> VarType field = Signature
             \<or> (isSquash tag \<and> \<not> isStruct (Underlying (VarType field)))"
    | (squash) children where "Exported field" "isSquash tag"
        "Underlying (VarType field) = Struct children"
    | (keep) "Exported field" "VarType field \<noteq> Signature" "\<not> isSquash tag"
    by (cases "Underlying (VarType field)") auto
  then show ?case
  proof cases
    case skip
    show ?thesis
      unfolding x squashLoop_skip [OF skip] by (rule Cons.IH [OF Cons.prems])
  next
    case squash
    let ?C = "fst (getMapstructureSquashedStruct topPkg children)"
    have l: "fst (squashLoop topPkg (x # s) (res, log))
               = fst (uniqueFields (fst (uniqueFields (res @ ?C)) @ ?G))"
      unfolding x squashLoop_squash [OF squash] squashStructs_def
      by (rule Cons.IH) (rule uniqueFields_distinct)
    have r: "fst (squashLoop topPkg (x # s) ([], []))
               = fst (uniqueFields (fst (uniqueFields ?C) @ ?G))"
      unfolding x squashLoop_squash [OF squash] squashStructs_def append_Nil
      by (rule Cons.IH) (rule uniqueFields_distinct)
    show ?thesis
      unfolding l r uniqueFields_left uniqueFields_right by simp
  next
    case keep
    let ?f = "(normalizeField topPkg field, tag)"
    have l: "fst (squashLoop topPkg (x # s) (res, log))
               = fst (uniqueFields (fst (uniqueFields (res @ [?f])) @ ?G))"
      unfolding x squashLoop_keep [OF keep] addFieldToStruct_def
      by (rule Cons.IH) (rule uniqueFields_distinct)
    have r: "fst (squashLoop topPkg (x # s) ([], []))
               = fst (uniqueFields (fst (uniqueFields [?f]) @ ?G))"
      unfolding x squashLoop_keep [OF keep] addFieldToStruct_def append_Nil
      by (rule Cons.IH) (rule uniqueFields_distinct)
    show ?thesis
      unfolding l r uniqueFields_left uniqueFields_right by simp
  qed
qed

lemma getMapstructureSquashedStruct_distinct:
  "distinct (fieldNames (fst (getMapstructureSquashedStruct topPkg s)))"
proof -
  have "fst (squashLoop topPkg s ([], []))
          = fst (uniqueFields ([] @ fst (squashLoop topPkg s ([], []))))"
    by (rule squashLoop_fields) simp
  then have "fieldNames (fst (squashLoop topPkg s ([], [])))
          = fieldNames (fst (uniqueFields (fst (squashLoop topPkg s ([], [])))))"
    by simp
  then show ?thesis
    unfolding getMapstructureSquashedStruct_def
    using uniqueFields_distinct [of "fst (squashLoop topPkg s ([], []))"] by simp
qed

lemma flatten_append:
  "fst (getMapstructureSquashedStruct topPkg (a @ b))
     = fst (uniqueFields (fst (getMapstructureSquashedStruct topPkg a)
                          @ fst (getMapstructureSquashedStruct topPkg b)))"
proof -
  let ?R = "fst (getMapstructureSquashedStruct topPkg a)"
  obtain L where a: "squashLoop topPkg a ([], []) = (?R, L)"
    by (cases "squashLoop topPkg a ([], [])") (simp add: getMapstructureSquashedStruct_def)
  show ?thesis
    unfolding getMapstructureSquashedStruct_def [of topPkg "a @ b"]
      getMapstructureSquashedStruct_def [of topPkg b] squashLoop_append a
    by (rule squashLoop_fields) (rule getMapstructureSquashedStruct_distinct)
qed

lemma normalizeField_scalar:
  assumes "VarType field = Basic kind \<or> VarType field = Pointer (Basic kind)"
  shows "normalizeField topPkg field
           = Var topPkg (VarName field) (Pointer (Basic kind)) (Embedded field) (Exported field)"
  using assms by (cases field) (auto simp: normalizeField_def NewField_def makePointer_def)

lemma flatten_around_squash:
  assumes "Exported field" and "isSquash tag"
    and "Underlying (VarType field) = Struct children"
  shows "fst (getMapstructureSquashedStruct topPkg (pre @ (field, tag) # post))
           = fst (uniqueFields (fst (getMapstructureSquashedStruct topPkg pre)
                                @ fst (getMapstructureSquashedStruct topPkg children)
                                @ fst (getMapstructureSquashedStruct topPkg post)))"
proof -
  let ?R = "fst (getMapstructureSquashedStruct topPkg pre)"
  let ?C = "fst (getMapstructureSquashedStruct topPkg children)"
  let ?G = "fst (getMapstructureSquashedStruct topPkg post)"
  obtain L where pre: "squashLoop topPkg pre ([], []) = (?R, L)"
    by (cases "squashLoop topPkg pre ([], [])") (simp add: getMapstructureSquashedStruct_def)
  have "fst (getMapstructureSquashedStruct topPkg (pre @ (field, tag) # post))
          = fst (uniqueFields (fst (uniqueFields (?R @ ?C)) @ ?G))"
    unfolding getMapstructureSquashedStruct_def [of topPkg "pre @ (field, tag) # post"]
      squashLoop_append pre squashLoop_squash [OF assms] squashStructs_def
      getMapstructureSquashedStruct_def [of topPkg post]
    by (rule squashLoop_fields) (rule uniqueFields_distinct)
  then show ?thesis by (simp add: uniqueFields_left)
qed

lemma flatten_around_kept:
  assumes "Exported field" and "VarType field \<noteq> Signature" and "\<not> isSquash tag"
  shows "fst (getMapstructureSquashedStruct topPkg (pre @ (field, tag) # post))
           = fst (uniqueFields (fst (getMapstructureSquashedStruct topPkg pre)
                                @ (normalizeField topPkg field, tag)
                                # fst (getMapstructureSquashedStruct topPkg post)))"
proof -
  let ?R = "fst (getMapstructureSquashedStruct topPkg pre)"
  let ?G = "fst (getMapstructureSquashedStruct topPkg post)"
  obtain L where pre: "squashLoop topPkg pre ([], []) = (?R, L)"
    by (cases "squashLoop topPkg pre ([], [])") (simp add: getMapstructureSquashedStruct_def)
  have "fst (getMapstructureSquashedStruct topPkg (pre @ (field, tag) # post))
          = fst (uniqueFields
                   (fst (uniqueFields (?R @ [(normalizeField topPkg field, tag)])) @ ?G))"
    unfolding getMapstructureSquashedStruct_def [of topPkg "pre @ (field, tag) # post"]
      squashLoop_append pre squashLoop_keep [OF assms] addFieldToStruct_def
      getMapstructureSquashedStruct_def [of topPkg post]
    by (rule squashLoop_fields) (rule uniqueFields_distinct)
  then show ?thesis by (simp add: uniqueFields_left)
qed

lemmas scenarioA_defs = scenarioA_def flatScenarioA_def nameField_def countField_def
  commonField_def commonStruct_def squashTag_def

text \<open>
  Claim C1. For every struct with an exported field, whatever stands before and behind
  it: if the field is tagged squash and its underlying type is a struct, the flat struct
  is the flat struct of the fields before it, then the flat struct of the squashed
  struct, then the flat struct of the fields behind it, with \<open>uniqueFields\<close> applied;
  the squash field itself is not part of it. If the field is a scalar (a basic type or
  a pointer to one) that is not tagged squash, it stands at its place with its type
  wrapped in exactly one pointer.
\<close>

theorem squash_is_inlined_scalars_get_one_pointer:
  assumes "Exported field"
  shows "(isSquash tag \<and> Underlying (VarType field) = Struct children \<longrightarrow>
            fst (getMapstructureSquashedStruct topPkg (pre @ (field, tag) # post))
              = fst (uniqueFields (fst (getMapstructureSquashedStruct topPkg pre)
                                   @ fst (getMapstructureSquashedStruct topPkg children)
                                   @ fst (getMapstructureSquashedStruct topPkg post))))
       \<and> (\<not> isSquash tag
            \<and> (VarType field = Basic kind \<or> VarType field = Pointer (Basic kind)) \<longrightarrow>
            fst (getMapstructureSquashedStruct topPkg (pre @ (field, tag) # post))
              = fst (uniqueFields
                       (fst (getMapstructureSquashedStruct topPkg pre)
                        @ (Var topPkg (VarName field) (Pointer (Basic kind)) (Embedded field)
                             True, tag)
                        # fst (getMapstructureSquashedStruct topPkg post))))"
proof (intro conjI impI)
  assume "isSquash tag \<and> Underlying (VarType field) = Struct children"
  with assms show "fst (getMapstructureSquashedStruct topPkg (pre @ (field, tag) # post))
              = fst (uniqueFields (fst (getMapstructureSquashedStruct topPkg pre)
                                   @ fst (getMapstructureSquashedStruct topPkg children)
                                   @ fst (getMapstructureSquashedStruct topPkg post)))"
    by (simp add: flatten_around_squash)
next
  assume a: "\<not> isSquash tag
            \<and> (VarType field = Basic kind \<or> VarType field = Pointer (Basic kind))"
  then have s: "VarType field \<noteq> Signature" by auto
  from a have n: "normalizeField topPkg field
           = Var topPkg (VarName field) (Pointer (Basic kind)) (Embedded field) True"
    using normalizeField_scalar [of field kind topPkg] assms by simp
  from a have q: "\<not> isSquash tag" by simp
  show "fst (getMapstructureSquashedStruct topPkg (pre @ (field, tag) # post))
              = fst (uniqueFields
                       (fst (getMapstructureSquashedStruct topPkg pre)
                        @ (Var topPkg (VarName field) (Pointer (Basic kind)) (Embedded field)
                             True, tag)
                        # fst (getMapstructureSquashedStruct topPkg post)))"
    using flatten_around_kept [OF assms s q, of topPkg pre post] n by simp
qed

text \<open>
  Scenario A: the theorem at the field \<open>Common\<close>; the flat struct has the three fields
  \<open>Name *string\<close>, \<open>Count *int\<close> and \<open>Debug *bool\<close>, and with the accessors added
  they are tagged \<open>name\<close>, \<open>count\<close> and \<open>debug\<close>, with an empty log.
\<close>

theorem squash_is_inlined_scalars_get_one_pointer_witness:
  "Exported commonField \<and> isSquash squashTag
   \<and> Underlying (VarType commonField) = Struct commonStruct
   \<and> fst (getMapstructureSquashedStruct ''main'' scenarioA) = flatScenarioA
   \<and> flatenedStruct asciiLower ''main'' scenarioA
       = ([(Var ''main'' ''Name'' (Pointer (Basic types_String)) False True,
            [\<lparr>Key = ''cty'', Name = ''name'', Options = []\<rparr>]),
           (Var ''main'' ''Count'' (Pointer (Basic types_Int)) False True,
            [\<lparr>Key = ''cty'', Name = ''count'', Options = []\<rparr>]),
           (Var ''main'' ''Debug'' (Pointer (Basic types_Bool)) False True,
            [\<lparr>Key = ''cty'', Name = ''debug'', Options = []\<rparr>])], [])"
proof (intro conjI)
  show e: "Exported commonField" by (simp add: commonField_def)
  show q: "isSquash squashTag" by (simp add: squashTag_def isSquash_def HasOption_def)
  show u: "Underlying (VarType commonField) = Struct commonStruct"
    by (simp add: commonField_def)
  have "fst (getMapstructureSquashedStruct ''main'' scenarioA)
          = fst (uniqueFields
                   (fst (getMapstructureSquashedStruct ''main'' [(nameField, []), (countField, [])])
                    @ fst (getMapstructureSquashedStruct ''main'' commonStruct)
                    @ fst (getMapstructureSquashedStruct ''main'' [])))"
    unfolding scenarioA_def
    using squash_is_inlined_scalars_get_one_pointer [OF e, of squashTag commonStruct] q u
    by blast
  also have "\<dots> = flatScenarioA"
    unfolding scenarioA_defs by code_simp
  finally show "fst (getMapstructureSquashedStruct ''main'' scenarioA) = flatScenarioA" .
  show "flatenedStruct asciiLower ''main'' scenarioA
       = ([(Var ''main'' ''Name'' (Pointer (Basic types_String)) False True,
            [\<lparr>Key = ''cty'', Name = ''name'', Options = []\<rparr>]),
           (Var ''main'' ''Count'' (Pointer (Basic types_Int)) False True,
            [\<lparr>Key = ''cty'', Name = ''count'', Options = []\<rparr>]),
           (Var ''main'' ''Debug'' (Pointer (Basic types_Bool)) False True,
            [\<lparr>Key = ''cty'', Name = ''debug'', Options = []\<rparr>])], [])"
    unfolding scenarioA_defs by code_simp
qed

text \<open>
  Claim C10. A field tagged squash whose underlying type is not a struct is passed
  over: the flat struct and the log are those of the struct without the field.
\<close>

theorem squash_of_non_struct_is_skipped:
  assumes "isSquash tag" and "\<not> isStruct (Underlying (VarType field))"
  shows "getMapstructureSquashedStruct topPkg (pre @ (field, tag) # post)
           = getMapstructureSquashedStruct topPkg (pre @ post)"
  using assms
  by (simp add: getMapstructureSquashedStruct_def squashLoop_append squashLoop_skip)

text \<open>
  A struct with the fields \<open>Name string\<close>, \<open>Extra string\<close> tagged squash and
  \<open>Count int\<close> flattens to \<open>Name *string\<close> and \<open>Count *int\<close>, and nothing is logged.
\<close>

theorem squash_of_non_struct_is_skipped_witness:
  "isSquash squashTag \<and> \<not> isStruct (Underlying (VarType extraField))
   \<and> getMapstructureSquashedStruct ''main''
        ([(nameField, [])] @ (extraField, squashTag) # [(countField, [])])
       = ([(Var ''main'' ''Name'' (Pointer (Basic types_String)) False True, []),
           (Var ''main'' ''Count'' (Pointer (Basic types_Int)) False True, [])], [])"
proof (intro conjI)
  show q: "isSquash squashTag" by (simp add: squashTag_def isSquash_def HasOption_def)
  show n: "\<not> isStruct (Underlying (VarType extraField))" by (simp add: extraField_def)
  have "getMapstructureSquashedStruct ''main''
          ([(nameField, [])] @ (extraField, squashTag) # [(countField, [])])
        = getMapstructureSquashedStruct ''main'' ([(nameField, [])] @ [(countField, [])])"
    using q n by (rule squash_of_non_struct_is_skipped)
  also have "\<dots> = ([(Var ''main'' ''Name'' (Pointer (Basic types_String)) False True, []),
           (Var ''main'' ''Count'' (Pointer (Basic types_Int)) False True, [])], [])"
    unfolding nameField_def countField_def by code_simp
  finally show "getMapstructureSquashedStruct ''main''
        ([(nameField, [])] @ (extraField, squashTag) # [(countField, [])])
       = ([(Var ''main'' ''Name'' (Pointer (Basic types_String)) False True, []),
           (Var ''main'' ''Count'' (Pointer (Basic types_Int)) False True, [])], [])" .
qed

section \<open>Properties of the accessors\<close>

lemma Get_SetTag:
  "Key tag \<noteq> [] \<Longrightarrow> Get (SetTag ts tag) (Key tag) = Some tag"
  by (induction ts) (auto simp: SetTag_def)

lemma Get_addCtyTag:
  "Get (snd (addCtyTag U ft)) ''cty''
     = Some \<lparr>Key = ''cty'', Name = ctyAccessor U (fst ft) (snd ft), Options = []\<rparr>"
  using Get_SetTag [of "\<lparr>Key = ''cty'', Name = ctyAccessor U (fst ft) (snd ft), Options = []\<rparr>" "snd ft"]
  by (cases ft) (simp add: addCtyTag_def)

lemma uniqueTags_loop_subset:
  "set (fst (uniqueTags_loop tagName seen vars)) \<subseteq> set vars"
  by (induction tagName seen vars rule: uniqueTags_loop.induct)
     (auto split: option.splits prod.splits if_splits)

lemma addCtyTagToStruct_has_cty:
  "list_all (\<lambda>ft. Get (snd ft) ''cty'' \<noteq> None) (fst (addCtyTagToStruct U s))"
proof -
  have "list_all (\<lambda>ft. Get (snd ft) ''cty'' \<noteq> None) (map (addCtyTag U) s)"
    by (simp add: list_all_iff Get_addCtyTag)
  then show ?thesis
    using uniqueTags_loop_subset [of "''cty''" "{}" "map (addCtyTag U) s"]
    unfolding addCtyTagToStruct_def uniqueTags_def list_all_iff by blast
qed

lemma fst_flatenedStruct:
  "fst (flatenedStruct U topPkg utStruct)
     = fst (addCtyTagToStruct U (fst (getMapstructureSquashedStruct topPkg utStruct)))"
  by (auto simp: flatenedStruct_def split: prod.splits)

lemma flatenedStruct_has_cty:
  "list_all (\<lambda>ft. Get (snd ft) ''cty'' \<noteq> None) (fst (flatenedStruct U topPkg utStruct))"
  unfolding fst_flatenedStruct by (rule addCtyTagToStruct_has_cty)

lemma flatenedStruct_distinct_fieldNames:
  "distinct (fieldNames (fst (flatenedStruct U topPkg s)))"
  unfolding fst_flatenedStruct addCtyTagToStruct_def uniqueTags_def
proof (rule uniqueTags_loop_distinct_fieldNames)
  have "fieldNames (map (addCtyTag U) (fst (getMapstructureSquashedStruct topPkg s)))
          = fieldNames (fst (getMapstructureSquashedStruct topPkg s))"
    by (simp add: fieldNames_def addCtyTag_def split_def)
  then show "distinct (fieldNames (map (addCtyTag U) (fst (getMapstructureSquashedStruct topPkg s))))"
    by (simp add: getMapstructureSquashedStruct_distinct)
qed

text \<open>
  Claim C7. When the \<open>mapstructure\<close> entry of a field has a name that is not empty,
  that name is the accessor, as it is written: it is what \<open>ctyAccessor\<close> returns, it is
  the name of the \<open>cty\<close> entry that is set on the field, and it is what
  \<open>addCtyTagToStruct\<close> gives the field of a struct of one field.
\<close>

theorem explicit_external_name_is_accessor:
  assumes "Get tag ''mapstructure'' = Some ms" and "Name ms \<noteq> []"
  shows "ctyAccessor unicodeLower field tag = Name ms
       \<and> Get (snd (addCtyTag unicodeLower (field, tag))) ''cty''
           = Some \<lparr>Key = ''cty'', Name = Name ms, Options = []\<rparr>
       \<and> addCtyTagToStruct unicodeLower [(field, tag)]
           = ([(field, SetTag tag \<lparr>Key = ''cty'', Name = Name ms, Options = []\<rparr>)], [])"
proof -
  have a: "ctyAccessor unicodeLower field tag = Name ms"
    using assms by (simp add: ctyAccessor_def)
  have g: "Get (SetTag tag \<lparr>Key = ''cty'', Name = Name ms, Options = []\<rparr>) ''cty''
             = Some \<lparr>Key = ''cty'', Name = Name ms, Options = []\<rparr>"
    using Get_SetTag [of "\<lparr>Key = ''cty'', Name = Name ms, Options = []\<rparr>" tag] by simp
  show ?thesis
    using a g by (simp add: addCtyTag_def addCtyTagToStruct_def uniqueTags_def)
qed

text \<open>
  Scenario C: the field \<open>Command\<close> tagged \<open>mapstructure:"cmd"\<close> gets the accessor
  \<open>cmd\<close>; the snake case of its name would be \<open>command\<close>.
\<close>

theorem explicit_external_name_is_accessor_witness:
  "Get (snd commandField) ''mapstructure''
     = Some \<lparr>Key = ''mapstructure'', Name = ''cmd'', Options = []\<rparr>
   \<and> ctyAccessor asciiLower (fst commandField) (snd commandField) = ''cmd''
   \<and> ToSnakeCase asciiLower (VarName (fst commandField)) = ''command''
   \<and> flatenedStruct asciiLower ''main'' [commandField]
       = ([(Var ''main'' ''Command'' (Pointer (Basic types_String)) False True,
            [\<lparr>Key = ''mapstructure'', Name = ''cmd'', Options = []\<rparr>,
             \<lparr>Key = ''cty'', Name = ''cmd'', Options = []\<rparr>])], [])"
proof (intro conjI)
  show g: "Get (snd commandField) ''mapstructure''
     = Some \<lparr>Key = ''mapstructure'', Name = ''cmd'', Options = []\<rparr>"
    by (simp add: commandField_def)
  have n: "Name \<lparr>Key = ''mapstructure'', Name = ''cmd'', Options = []\<rparr> \<noteq> []" by simp
  show "ctyAccessor asciiLower (fst commandField) (snd commandField) = ''cmd''"
    using explicit_external_name_is_accessor [OF g n, of asciiLower "fst commandField"]
    by simp
  show "ToSnakeCase asciiLower (VarName (fst commandField)) = ''command''"
    unfolding commandField_def by code_simp
  show "flatenedStruct asciiLower ''main'' [commandField]
       = ([(Var ''main'' ''Command'' (Pointer (Basic types_String)) False True,
            [\<lparr>Key = ''mapstructure'', Name = ''cmd'', Options = []\<rparr>,
             \<lparr>Key = ''cty'', Name = ''cmd'', Options = []\<rparr>])], [])"
    unfolding commandField_def by code_simp
qed

text \<open>
  Claim C2. In the struct \<open>getMapstructureSquashedStruct\<close> returns no two fields have
  the same name; in the struct that went through \<open>addCtyTagToStruct\<close> as well no two
  fields have the same name, every field has a \<open>cty\<close> entry and no two of them have
  the same name. The flat struct of the fields \<open>s\<close> followed by the fields \<open>s'\<close> is
  \<open>uniqueFields\<close> of the two flat structs one after the other, so a field of the
  first part wins over a field of the second part with the same name.
  \<open>uniqueFields\<close> keeps, for every name, the first field of its input
  with that name, logs one line for every other field with that name, and every field
  is either kept or logged; \<open>uniqueTags\<close> does the same for the names of the entries
  with the given key. Both are total functions: a duplicate never stops the run.
\<close>

theorem names_and_accessors_are_unique:
  "distinct (fieldNames (fst (getMapstructureSquashedStruct topPkg s)))
   \<and> fst (getMapstructureSquashedStruct topPkg (s @ s'))
       = fst (uniqueFields (fst (getMapstructureSquashedStruct topPkg s)
                            @ fst (getMapstructureSquashedStruct topPkg s')))
   \<and> distinct (fieldNames (fst (flatenedStruct unicodeLower topPkg s)))
   \<and> distinct (tagNames ''cty'' (fst (flatenedStruct unicodeLower topPkg s)))
   \<and> length (tagNames ''cty'' (fst (flatenedStruct unicodeLower topPkg s)))
       = length (fst (flatenedStruct unicodeLower topPkg s))
   \<and> find (\<lambda>ft. VarName (fst ft) = n) (fst (uniqueFields vars))
       = find (\<lambda>ft. VarName (fst ft) = n) vars
   \<and> count_list (snd (uniqueFields vars)) (SkippingDuplicateField n)
       = count_list (fieldNames vars) n - 1
   \<and> length (fst (uniqueFields vars)) + length (snd (uniqueFields vars)) = length vars
   \<and> find (\<lambda>ft. map_option Name (Get (snd ft) tagName) = Some a)
          (fst (uniqueTags tagName vars))
       = find (\<lambda>ft. map_option Name (Get (snd ft) tagName) = Some a) vars
   \<and> length (fst (uniqueTags tagName vars)) + length (snd (uniqueTags tagName vars))
       = length vars"
proof (intro conjI)
  show "distinct (fieldNames (fst (getMapstructureSquashedStruct topPkg s)))"
    by (rule getMapstructureSquashedStruct_distinct)
  show "fst (getMapstructureSquashedStruct topPkg (s @ s'))
       = fst (uniqueFields (fst (getMapstructureSquashedStruct topPkg s)
                            @ fst (getMapstructureSquashedStruct topPkg s')))"
    by (rule flatten_append)
  show "distinct (fieldNames (fst (flatenedStruct unicodeLower topPkg s)))"
    by (rule flatenedStruct_distinct_fieldNames)
  show "distinct (tagNames ''cty'' (fst (flatenedStruct unicodeLower topPkg s)))"
    unfolding fst_flatenedStruct addCtyTagToStruct_def uniqueTags_def
    by (rule uniqueTags_loop_distinct_tagNames)
  show "length (tagNames ''cty'' (fst (flatenedStruct unicodeLower topPkg s)))
       = length (fst (flatenedStruct unicodeLower topPkg s))"
    by (rule tagNames_length) (rule flatenedStruct_has_cty)
  show "find (\<lambda>ft. VarName (fst ft) = n) (fst (uniqueFields vars))
       = find (\<lambda>ft. VarName (fst ft) = n) vars"
    by (simp add: uniqueFields_def uniqueFields_loop_find)
  show "count_list (snd (uniqueFields vars)) (SkippingDuplicateField n)
       = count_list (fieldNames vars) n - 1"
    by (simp add: uniqueFields_def uniqueFields_loop_count)
  show "length (fst (uniqueFields vars)) + length (snd (uniqueFields vars)) = length vars"
    by (simp add: uniqueFields_def uniqueFields_loop_length)
  show "find (\<lambda>ft. map_option Name (Get (snd ft) tagName) = Some a)
          (fst (uniqueTags tagName vars))
       = find (\<lambda>ft. map_option Name (Get (snd ft) tagName) = Some a) vars"
    using uniqueTags_loop_find [of tagName a "{}" vars] by (simp add: uniqueTags_def)
  show "length (fst (uniqueTags tagName vars)) + length (snd (uniqueTags tagName vars))
       = length vars"
    by (simp add: uniqueTags_def uniqueTags_loop_length)
qed

section \<open>Properties of the lowering\<close>

lemma outputHCL2SpecField_requiredFalse:
  "requiredFalse (fst (outputHCL2SpecField accessor fieldType tag))"
proof (induction accessor fieldType tag rule: outputHCL2SpecField.induct)
  case (1 accessor fieldType tag)
  show ?case
    apply (subst outputHCL2SpecField.simps)
    using 1
    apply (auto split: Type.splits prod.splits)
     apply (metis fst_conv)+
    done
qed

lemma outputHCL2SpecField_Map:
  "\<not> selfDefined tag \<Longrightarrow>
   outputHCL2SpecField accessor (Map k v) tag = (BlockAttrsSpec accessor cty_String False, [])"
  by (simp add: outputHCL2SpecField.simps)

lemma outputHCL2SpecField_Pointer:
  "\<not> selfDefined tag \<Longrightarrow>
   outputHCL2SpecField accessor (Pointer e) tag = outputHCL2SpecField accessor e tag"
  by (simp add: outputHCL2SpecField.simps)



lemma parsed_not_selfDefined:
  "list_all (\<lambda>t. Key t \<noteq> []) tag \<Longrightarrow> \<not> selfDefined tag"
  by (induction tag) (auto simp: selfDefined_def)


lemma outputStructHCL2SpecBody_requiredFalse:
  "list_all (\<lambda>ft. Get (snd ft) ''cty'' \<noteq> None) s \<Longrightarrow>
   \<exists>entries log. outputStructHCL2SpecBody s = Inr (entries, log)
      \<and> list_all (\<lambda>e. requiredFalse (snd e)) entries"
proof (induction s)
  case Nil
  then show ?case by simp
next
  case (Cons ft s)
  obtain field tag where ft: "ft = (field, tag)" by (cases ft)
  from Cons.prems ft obtain ctyTag where g: "Get tag ''cty'' = Some ctyTag" by auto
  obtain sp log1 where o: "outputHCL2SpecField (Name ctyTag) (VarType field) tag = (sp, log1)"
    by (cases "outputHCL2SpecField (Name ctyTag) (VarType field) tag")
  have r: "requiredFalse sp"
    using outputHCL2SpecField_requiredFalse [of "Name ctyTag" "VarType field" tag] o by simp
  from Cons obtain entries log2 where
    b: "outputStructHCL2SpecBody s = Inr (entries, log2)"
    and a: "list_all (\<lambda>e. requiredFalse (snd e)) entries" by auto
  show ?case using ft g o r a b by simp
qed

text \<open>
  Claim C3. Every \<open>AttrSpec\<close> and \<open>BlockAttrsSpec\<close> node the lowering prints has
  \<open>Required: false\<close>, also below a block specification: for every accessor, type and
  tag given to \<open>outputHCL2SpecField\<close>, and for every entry of the map that
  \<open>outputStructHCL2SpecBody\<close> prints for a struct that went through flattening and
  \<open>addCtyTagToStruct\<close> (where it always returns a map).
\<close>

theorem required_always_false:
  "requiredFalse (fst (outputHCL2SpecField accessor fieldType tag))
   \<and> (\<exists>entries log.
         outputStructHCL2SpecBody (fst (flatenedStruct unicodeLower topPkg utStruct))
           = Inr (entries, log)
         \<and> list_all (\<lambda>e. requiredFalse (snd e)) entries)"
  using outputHCL2SpecField_requiredFalse
    outputStructHCL2SpecBody_requiredFalse [OF flatenedStruct_has_cty]
  by blast

text \<open>
  Claim C6. A field whose type is a map lowers to a \<open>BlockAttrsSpec\<close> whose element
  type is \<open>cty.String\<close> and whose \<open>Required\<close> is false, whatever the key and value types
  of the map are. The hypothesis excludes the first test of the function (an entry with
  the empty key and the option \<open>self-defined\<close>); by \<open>parsed_not_selfDefined\<close> it holds of
  every tag whose keys are not empty, and \<open>structtag.Parse\<close> refuses an empty key.
\<close>

theorem mapping_lowers_to_string_values:
  assumes "\<not> selfDefined tag"
  shows "outputHCL2SpecField accessor (Map k v) tag
           = (BlockAttrsSpec accessor cty_String False, [])"
  using assms by (rule outputHCL2SpecField_Map)

text \<open>
  Scenario E: \<open>Env map[string]int\<close> lowers to a \<open>BlockAttrsSpec\<close> for \<open>env\<close> with
  element type String, not Number, alone and through the whole pipeline.
\<close>

theorem mapping_lowers_to_string_values_witness:
  "\<not> selfDefined [\<lparr>Key = ''cty'', Name = ''env'', Options = []\<rparr>]
   \<and> outputHCL2SpecField ''env'' (Map (Basic types_String) (Basic types_Int))
         [\<lparr>Key = ''cty'', Name = ''env'', Options = []\<rparr>]
       = (BlockAttrsSpec ''env'' cty_String False, [])
   \<and> outputStructHCL2SpecBody (fst (flatenedStruct asciiLower ''main'' [envField]))
       = Inr ([(''env'', BlockAttrsSpec ''env'' cty_String False)], [])"
proof (intro conjI)
  show n: "\<not> selfDefined [\<lparr>Key = ''cty'', Name = ''env'', Options = []\<rparr>]"
    by (simp add: selfDefined_def)
  show "outputHCL2SpecField ''env'' (Map (Basic types_String) (Basic types_Int))
         [\<lparr>Key = ''cty'', Name = ''env'', Options = []\<rparr>]
       = (BlockAttrsSpec ''env'' cty_String False, [])"
    using n by (rule mapping_lowers_to_string_values)
  show "outputStructHCL2SpecBody (fst (flatenedStruct asciiLower ''main'' [envField]))
       = Inr ([(''env'', BlockAttrsSpec ''env'' cty_String False)], [])"
    unfolding envField_def by code_simp
qed









end
